theory Spec2Isabelle
  imports Main "HOL-Library.Sublist"
begin

section \<open>Text primitives used by add\_copyright.py\<close>

text \<open>
  Python strings are sequences of code points; here a \<^typ>\<open>char\<close> stands for a code point
  below 256.
\<close>

definition newline :: char where
  "newline = CHR 0x0A"

definition carriage_return :: char where
  "carriage_return = CHR 0x0D"

text \<open>\<open>str.isspace\<close> on the code points below 256.\<close>

definition isspace :: "char \<Rightarrow> bool" where
  "isspace c = (c \<in> {CHR 0x09, CHR 0x0A, CHR 0x0B, CHR 0x0C, CHR 0x0D,
                      CHR 0x1C, CHR 0x1D, CHR 0x1E, CHR 0x1F, CHR 0x20, CHR 0x85, CHR 0xA0})"

definition str_lstrip :: "string \<Rightarrow> string" where
  "str_lstrip s = dropWhile isspace s"

definition str_rstrip :: "string \<Rightarrow> string" where
  "str_rstrip s = rev (dropWhile isspace (rev s))"

definition str_strip :: "string \<Rightarrow> string" where
  "str_strip s = str_rstrip (str_lstrip s)"

text \<open>\<open>s.lstrip('.')\<close>\<close>

definition lstrip_dots :: "string \<Rightarrow> string" where
  "lstrip_dots s = dropWhile (\<lambda>c. c = CHR ''.'') s"

text \<open>\<open>s.split(sep)\<close> for a one-character separator: never the empty list.\<close>

fun str_split :: "char \<Rightarrow> string \<Rightarrow> string list" where
  "str_split sep [] = [[]]"
| "str_split sep (c # cs) =
     (if c = sep then [] # str_split sep cs
      else (case str_split sep cs of
              [] \<Rightarrow> [[c]]
            | w # ws \<Rightarrow> (c # w) # ws))"

text \<open>\<open>sep.join(xs)\<close>\<close>

fun str_join :: "string \<Rightarrow> string list \<Rightarrow> string" where
  "str_join sep [] = []"
| "str_join sep [x] = x"
| "str_join sep (x # y # ys) = x @ sep @ str_join sep (y # ys)"

text \<open>\<open>s.lower()\<close> on code points below 256: A-Z and the Latin-1 capitals.\<close>

definition char_lower :: "char \<Rightarrow> char" where
  "char_lower c =
     (let n = (of_char c :: nat)
      in if (65 \<le> n \<and> n \<le> 90) \<or> (192 \<le> n \<and> n \<le> 222 \<and> n \<noteq> 215)
         then char_of (n + 32) else c)"

definition str_lower :: "string \<Rightarrow> string" where
  "str_lower s = map char_lower s"

text \<open>\<open>s.startswith(p)\<close> and \<open>needle in s\<close>\<close>

definition startswith :: "string \<Rightarrow> string \<Rightarrow> bool" where
  "startswith s p = prefix p s"

definition str_contains :: "string \<Rightarrow> string \<Rightarrow> bool" where
  "str_contains needle s = sublist needle s"

text \<open>
  \<open>f.readlines()\<close>: the text cut after every line feed, each line keeping its line feed;
  a last line without one is kept as it is.
\<close>

fun readlines :: "string \<Rightarrow> string list" where
  "readlines [] = []"
| "readlines (c # cs) =
     (if c = newline then [c] # readlines cs
      else (case readlines cs of
              [] \<Rightarrow> [[c]]
            | l # ls \<Rightarrow> (c # l) # ls))"

text \<open>
  Reading in text mode with the default \<open>newline=None\<close> (universal newlines): a carriage
  return followed by a line feed, and a carriage return alone, each reach the program
  as one line feed. Writing in that mode on a POSIX system puts the characters out as
  they are.
\<close>

fun universal_newlines :: "string \<Rightarrow> string" where
  "universal_newlines [] = []"
| "universal_newlines [c] = [if c = carriage_return then newline else c]"
| "universal_newlines (c # d # cs) =
     (if c = carriage_return \<and> d = newline then newline # universal_newlines cs
      else if c = carriage_return then newline # universal_newlines (d # cs)
      else c # universal_newlines (d # cs))"

section \<open>Path functions (posixpath)\<close>

definition path_basename :: "string \<Rightarrow> string" where
  "path_basename p = rev (takeWhile (\<lambda>c. c \<noteq> CHR ''/'') (rev p))"

text \<open>
  \<open>os.path.splitext\<close>: the extension starts at the last dot of the last path component,
  provided some character other than a dot stands before it in that component.
\<close>

definition path_splitext :: "string \<Rightarrow> string \<times> string" where
  "path_splitext p =
     (let base = path_basename p;
          ext = rev (takeWhile (\<lambda>c. c \<noteq> CHR ''.'') (rev base));
          stem = rev (drop 1 (dropWhile (\<lambda>c. c \<noteq> CHR ''.'') (rev base)))
      in if CHR ''.'' \<in> set base \<and> list_ex (\<lambda>c. c \<noteq> CHR ''.'') stem
         then (take (length p - Suc (length ext)) p, CHR ''.'' # ext)
         else (p, []))"

text \<open>\<open>os.path.join(a, b)\<close>\<close>

definition path_join :: "string \<Rightarrow> string \<Rightarrow> string" where
  "path_join a b =
     (if startswith b ''/'' then b
      else if a = [] \<or> last a = CHR ''/'' then a @ b
      else a @ ''/'' @ b)"

section \<open>Configuration tables\<close>

definition SUPPORTED_EXTENSIONS :: "string set" where
  "SUPPORTED_EXTENSIONS =
     {''py'', ''java'', ''js'', ''ts'', ''c'', ''cpp'', ''h'', ''hpp'', ''cs'', ''go'', ''rs'',
      ''html'', ''css'', ''scss'', ''sh'', ''rb'', ''php'', ''yml''}"

definition COMMENT_MAP :: "string \<rightharpoonup> string \<times> string" where
  "COMMENT_MAP = map_of
     [(''c'', (''/*'', '' */'')), (''cpp'', (''/*'', '' */'')), (''h'', (''/*'', '' */'')),
      (''hpp'', (''/*'', '' */'')), (''java'', (''/*'', '' */'')), (''js'', (''/*'', '' */'')),
      (''ts'', (''/*'', '' */'')), (''cs'', (''/*'', '' */'')), (''go'', (''/*'', '' */'')),
      (''rs'', (''/*'', '' */'')), (''css'', (''/*'', '' */'')), (''scss'', (''/*'', '' */'')),
      (''php'', (''/*'', '' */'')),
      (''py'', (''#'', '''')), (''sh'', (''#'', '''')), (''rb'', (''#'', '''')),
      (''yml'', (''#'', '''')),
      (''html'', (''<!--'', '' -->''))]"

section \<open>The notice inserter\<close>

text \<open>
  The files the program can open, by path. A path with no entry cannot be opened
  (\<open>open\<close> raises an \<open>OSError\<close>). \<open>Undecodable\<close> is a file whose bytes are not UTF-8
  (reading it raises \<open>UnicodeDecodeError\<close>). \<open>Text c\<close> is a file that holds the
  characters \<open>c\<close>, carriage returns included, as they are stored. \<open>FailingText c n\<close>
  holds \<open>c\<close> as well, but rewriting it raises an \<open>OSError\<close> once the file has been
  truncated and \<open>n\<close> characters of the new content have been written (a full disk, a
  failing device), and the file is left with those characters.
\<close>

datatype file_content = Undecodable | Text string | FailingText string nat

type_synonym store = "string \<rightharpoonup> file_content"

datatype error = OSError | UnicodeDecodeError

text \<open>What \<open>f.read()\<close> and \<open>f.readlines()\<close> get from an open file.\<close>

fun stored_text :: "file_content \<Rightarrow> error + string" where
  "stored_text Undecodable = Inl UnicodeDecodeError"
| "stored_text (Text c) = Inr (universal_newlines c)"
| "stored_text (FailingText c n) = Inr (universal_newlines c)"

text \<open>
  \<open>f.seek(0); f.truncate()\<close> and the writes that follow, with the whole new content:
  the exception raised, if any, and the file as it is left.
\<close>

fun rewrite_file :: "file_content \<Rightarrow> string \<Rightarrow> error option \<times> file_content" where
  "rewrite_file (FailingText c n) new = (Some OSError, FailingText (take n new) n)"
| "rewrite_file other new = (None, Text new)"

text \<open>What one call of the inserter prints: its four messages.\<close>

datatype outcome =
    Added
  | NoCommentStyle string
  | AlreadyFound
  | ErrorProcessing error

text \<open>The extension the inserter looks up, with the Dockerfile override.\<close>

definition extension_of :: "string \<Rightarrow> string" where
  "extension_of file_path =
     (let filename = path_basename file_path;
          extension = lstrip_dots (snd (path_splitext file_path))
      in if filename = ''Dockerfile'' then ''dockerfile'' else extension)"

definition copyright_lines :: "string \<Rightarrow> string list" where
  "copyright_lines copyright_text = str_split newline (str_strip copyright_text)"

definition notice_lines :: "string \<times> string \<Rightarrow> string \<Rightarrow> string list" where
  "notice_lines style copyright_text =
     (let (start_marker, end_marker) = style
      in if end_marker \<noteq> []
         then [start_marker]
              @ map (\<lambda>line. str_rstrip ('' * '' @ line)) (copyright_lines copyright_text)
              @ ['' '' @ end_marker]
         else map (\<lambda>line. str_rstrip (start_marker @ '' '' @ line))
                (copyright_lines copyright_text))"

definition formatted_notice :: "string \<times> string \<Rightarrow> string \<Rightarrow> string" where
  "formatted_notice style copyright_text =
     str_join [newline] (notice_lines style copyright_text) @ [newline]"

definition has_notice :: "string list \<Rightarrow> bool" where
  "has_notice original_content =
     list_ex (\<lambda>line. str_contains ''Copyright (c)'' line) (take 20 original_content)"

text \<open>The special first line and the lines the notice is put in front of.\<close>

definition special_first_line :: "string \<Rightarrow> string list \<Rightarrow> string \<times> string list" where
  "special_first_line extension original_content =
     (case original_content of
        [] \<Rightarrow> ([], original_content)
      | line1 # rest \<Rightarrow>
          if startswith line1 ''#!'' \<or> startswith (str_strip line1) ''<?php''
             \<or> (extension = ''html'' \<and> startswith (str_lower line1) ''<!doctype'')
          then (line1, rest)
          else ([], original_content))"

definition rewritten :: "string \<Rightarrow> string \<times> string \<Rightarrow> string \<Rightarrow> string list \<Rightarrow> string" where
  "rewritten extension style copyright_text original_content =
     (let (first_line, content_to_prepend_to) = special_first_line extension original_content
      in first_line @ formatted_notice style copyright_text
         @ (if content_to_prepend_to \<noteq> [] then [newline] @ concat content_to_prepend_to
            else []))"

text \<open>
  The body of the \<open>try\<close> block: either it raises (\<open>Inl\<close>) or it runs to one of its three
  prints (\<open>Inr\<close>); in both cases the files are as the body left them.
\<close>

definition prepend_copyright_try ::
  "string \<Rightarrow> string \<Rightarrow> (string \<rightharpoonup> string \<times> string) \<Rightarrow> store
     \<Rightarrow> (error + outcome) \<times> store" where
  "prepend_copyright_try file_path copyright_text comment_map st =
     (let extension = extension_of file_path
      in case comment_map extension of
           None \<Rightarrow> (Inr (NoCommentStyle extension), st)
         | Some style \<Rightarrow>
             (case st file_path of
                None \<Rightarrow> (Inl OSError, st)
              | Some f \<Rightarrow>
                  (case stored_text f of
                     Inl e \<Rightarrow> (Inl e, st)
                   | Inr text \<Rightarrow>
                       let original_content = readlines text
                       in if has_notice original_content then (Inr AlreadyFound, st)
                          else (case rewrite_file f
                                       (rewritten extension style copyright_text
                                          original_content) of
                                  (None, f') \<Rightarrow> (Inr Added, st(file_path \<mapsto> f'))
                                | (Some e, f') \<Rightarrow> (Inl e, st(file_path \<mapsto> f'))))))"

text \<open>
  The function with its \<open>except Exception\<close> handler: an exception of the body becomes
  the "Error processing file" message.
\<close>

definition prepend_copyright ::
  "string \<Rightarrow> string \<Rightarrow> (string \<rightharpoonup> string \<times> string) \<Rightarrow> store \<Rightarrow> outcome \<times> store" where
  "prepend_copyright file_path copyright_text comment_map st =
     (case prepend_copyright_try file_path copyright_text comment_map st of
        (Inl e, st') \<Rightarrow> (ErrorProcessing e, st')
      | (Inr out, st') \<Rightarrow> (out, st'))"

section \<open>The directory scanner\<close>

text \<open>
  A directory as \<open>os.walk\<close> lists it: its entries in the order \<open>scandir\<close> yields them,
  each a file name or a subdirectory with its own entries.
\<close>

datatype entry = FileE string | DirE string "entry list"

definition file_matches :: "string set \<Rightarrow> string \<Rightarrow> bool" where
  "file_matches extensions filename =
     ((''dockerfile'' \<in> extensions \<and> filename = ''Dockerfile'')
      \<or> lstrip_dots (snd (path_splitext filename)) \<in> extensions)"

fun filenames_of :: "entry list \<Rightarrow> string list" where
  "filenames_of [] = []"
| "filenames_of (FileE n # es) = n # filenames_of es"
| "filenames_of (DirE d sub # es) = filenames_of es"

text \<open>
  The loop over \<open>os.walk(root_dir, topdown=True)\<close>: the matching files of a directory,
  then the subdirectories that survive the pruning, each walked in turn.
\<close>

fun walk :: "string set \<Rightarrow> string set \<Rightarrow> string \<Rightarrow> entry list \<Rightarrow> string list"
  and walk_dirs :: "string set \<Rightarrow> string set \<Rightarrow> string \<Rightarrow> entry list \<Rightarrow> string list" where
  "walk extensions excluded_dirs dirpath entries =
     map (path_join dirpath) (filter (file_matches extensions) (filenames_of entries))
     @ walk_dirs extensions excluded_dirs dirpath entries"
| "walk_dirs extensions excluded_dirs dirpath [] = []"
| "walk_dirs extensions excluded_dirs dirpath (FileE n # es) =
     walk_dirs extensions excluded_dirs dirpath es"
| "walk_dirs extensions excluded_dirs dirpath (DirE d sub # es) =
     (if d \<notin> excluded_dirs then walk extensions excluded_dirs (path_join dirpath d) sub
      else [])
     @ walk_dirs extensions excluded_dirs dirpath es"

text \<open>
  \<open>dirs root_dir\<close> is the listing of \<open>root_dir\<close> when \<open>os.path.isdir(root_dir)\<close> holds,
  and \<open>None\<close> otherwise.
\<close>

definition find_files_by_extensions ::
  "(string \<rightharpoonup> entry list) \<Rightarrow> string \<Rightarrow> string \<Rightarrow> string set option \<Rightarrow> string list" where
  "find_files_by_extensions dirs root_dir extensions_str excluded_dirs =
     (case dirs root_dir of
        None \<Rightarrow> []
      | Some entries \<Rightarrow>
          let excluded = (case excluded_dirs of None \<Rightarrow> {} | Some s \<Rightarrow> s);
              extensions = set (map str_strip (str_split CHR '','' extensions_str))
          in walk extensions excluded root_dir entries)"

subsection \<open>Where a file lies in the listing\<close>

text \<open>
  A directory entry's name as a file system gives it: not empty and without a slash.
\<close>

definition name_ok :: "string \<Rightarrow> bool" where
  "name_ok n = (n \<noteq> [] \<and> CHR ''/'' \<notin> set n)"

fun names_ok :: "entry \<Rightarrow> bool" where
  "names_ok (FileE n) = name_ok n"
| "names_ok (DirE d sub) = (name_ok d \<and> list_all names_ok sub)"

text \<open>
  \<open>file_at entries ds f\<close>: the listing has a file named \<open>f\<close> inside the chain of
  directories \<open>ds\<close>.
\<close>

fun file_at :: "entry list \<Rightarrow> string list \<Rightarrow> string \<Rightarrow> bool" where
  "file_at entries [] f = (FileE f \<in> set entries)"
| "file_at entries (d # ds) f =
     list_ex (\<lambda>e. case e of DirE d' sub \<Rightarrow> d' = d \<and> file_at sub ds f | FileE n \<Rightarrow> False) entries"

text \<open>
  The path \<open>os.walk\<close> and the scanner build for the file \<open>f\<close> that lies below the root
  in the directories \<open>ds\<close> (outermost first).
\<close>

definition path_of :: "string \<Rightarrow> string list \<Rightarrow> string \<Rightarrow> string" where
  "path_of root_dir ds f = path_join (foldl path_join root_dir ds) f"


text \<open>What \<open>os.path.join\<close> puts in front of a name joined to \<open>a\<close>.\<close>

definition dir_prefix :: "string \<Rightarrow> string" where
  "dir_prefix a = (if a = [] \<or> last a = CHR ''/'' then a else a @ ''/'')"

section \<open>The command-line run\<close>

fun process_files :: "string list \<Rightarrow> string \<Rightarrow> store \<Rightarrow> (string \<times> outcome) list \<times> store" where
  "process_files [] copyright_text st = ([], st)"
| "process_files (file_path # rest) copyright_text st =
     (let (out, st1) = prepend_copyright file_path copyright_text COMMENT_MAP st;
          (log, st2) = process_files rest copyright_text st1
      in ((file_path, out) # log, st2))"

record run =
  exit_status :: nat
  messages :: "(string \<times> outcome) list"
  files_after :: store

definition main ::
  "string \<Rightarrow> string \<Rightarrow> string \<Rightarrow> (string \<rightharpoonup> entry list) \<Rightarrow> store \<Rightarrow> run" where
  "main directory_to_search file_extensions_str excluded_dirs_str dirs st =
     (let excluded_dirs =
            set (filter (\<lambda>d. d \<noteq> []) (map str_strip (str_split CHR '','' excluded_dirs_str)));
          user_extensions = set (map str_strip (str_split CHR '','' file_extensions_str));
          unsupported_extensions = user_extensions - SUPPORTED_EXTENSIONS
      in if unsupported_extensions \<noteq> {}
         then \<lparr>exit_status = 1, messages = [], files_after = st\<rparr>
         else (case map_option stored_text (st ''copyright.txt'') of
                 Some (Inr copyright_text) \<Rightarrow>
                   let found_files =
                         find_files_by_extensions dirs directory_to_search
                           file_extensions_str (Some excluded_dirs);
                       (log, st') = process_files found_files copyright_text st
                   in \<lparr>exit_status = 0, messages = log, files_after = st'\<rparr>
               | _ \<Rightarrow> \<lparr>exit_status = 1, messages = [], files_after = st\<rparr>))"

section \<open>Evaluation of the model on concrete inputs\<close>

lemmas text_defs =
  newline_def carriage_return_def isspace_def str_lstrip_def str_rstrip_def str_strip_def lstrip_dots_def
  char_lower_def str_lower_def startswith_def str_contains_def sublist_code

lemmas path_defs = path_basename_def path_splitext_def path_join_def

lemmas inserter_defs =
  extension_of_def copyright_lines_def notice_lines_def formatted_notice_def has_notice_def
  special_first_line_def rewritten_def prepend_copyright_try_def prepend_copyright_def
  COMMENT_MAP_def

lemmas scanner_defs = file_matches_def find_files_by_extensions_def

section \<open>Lines and joins\<close>

lemma readlines_concat: "concat (readlines s) = s"
  by (induction s) (auto split: list.splits)

lemma readlines_no_empty_line: "[] \<notin> set (readlines s)"
  by (induction s) (auto split: list.splits)

lemma str_split_not_Nil: "str_split sep s \<noteq> []"
  by (induction s) (auto split: list.splits)

lemma str_join_newline_terminated:
  "xs \<noteq> [] \<Longrightarrow> str_join [newline] xs @ [newline] = concat (map (\<lambda>l. l @ [newline]) xs)"
  by (induction "[newline]" xs rule: str_join.induct) simp_all

lemma newline_not_carriage_return: "newline \<noteq> carriage_return"
  by (simp add: newline_def carriage_return_def)

lemma universal_newlines_no_carriage_return:
  "carriage_return \<notin> set (universal_newlines s)"
  by (induction s rule: universal_newlines.induct)
     (auto simp: newline_def carriage_return_def)

lemma universal_newlines_id:
  "carriage_return \<notin> set s \<Longrightarrow> universal_newlines s = s"
  by (induction s rule: universal_newlines.induct) auto

section \<open>The scanner on a path that is not a directory\<close>

text \<open>
  C5. For a root path that is not an existing directory the scanner returns the empty
  list, whatever the extension string and the excluded names are.
\<close>

theorem scanner_empty_when_not_directory:
  "dirs root_dir = None \<Longrightarrow>
   find_files_by_extensions dirs root_dir extensions_str excluded_dirs = []"
  by (simp add: find_files_by_extensions_def)

theorem scanner_empty_when_not_directory_witness:
  "[''proj'' \<mapsto> [FileE ''a.py'']] ''proj/a.py'' = None \<and>
   find_files_by_extensions [''proj'' \<mapsto> [FileE ''a.py'']] ''proj/a.py'' ''py''
     (Some {''venv''}) = []"
  using scanner_empty_when_not_directory
    [of "[''proj'' \<mapsto> [FileE ''a.py'']]" "''proj/a.py''" "''py''" "Some {''venv''}"]
  by simp

section \<open>The skip branches of the inserter\<close>

text \<open>
  C10. When the style table has no entry for the file's extension the inserter returns
  with the warning and the store as it was; when one of the first 20 lines of the file
  contains the literal \<open>Copyright (c)\<close> it returns with the "already found" message and
  the store as it was. Neither message is ever paired with a changed store.
\<close>

theorem skip_leaves_file_unchanged:
  "(comment_map (extension_of file_path) = None \<longrightarrow>
      prepend_copyright file_path copyright_text comment_map st
        = (NoCommentStyle (extension_of file_path), st))
   \<and> (comment_map (extension_of file_path) = Some style
        \<and> st file_path = Some (Text content)
        \<and> (\<exists>line \<in> set (take 20 (readlines (universal_newlines content))).
              sublist ''Copyright (c)'' line) \<longrightarrow>
      prepend_copyright file_path copyright_text comment_map st = (AlreadyFound, st))
   \<and> (fst (prepend_copyright file_path copyright_text comment_map st) = NoCommentStyle e
        \<or> fst (prepend_copyright file_path copyright_text comment_map st) = AlreadyFound \<longrightarrow>
      snd (prepend_copyright file_path copyright_text comment_map st) = st)"
  by (auto simp: prepend_copyright_def prepend_copyright_try_def has_notice_def
                 str_contains_def list_ex_iff Let_def
           split: option.splits sum.splits prod.splits if_splits)

theorem skip_leaves_file_unchanged_witness:
  "COMMENT_MAP (extension_of ''notes.txt'') = None
   \<and> prepend_copyright ''notes.txt'' ''Copyright (c) 2024 X'' COMMENT_MAP
        [''notes.txt'' \<mapsto> Text ''hello'']
       = (NoCommentStyle ''txt'', [''notes.txt'' \<mapsto> Text ''hello''])
   \<and> COMMENT_MAP (extension_of ''a.py'') = Some (''#'', '''')
   \<and> sublist ''Copyright (c)''
        (hd (take 20 (readlines (universal_newlines
                                   ''# Copyright (c) 2020 Y\<newline>x = 1\<newline>''))))
   \<and> prepend_copyright ''a.py'' ''Copyright (c) 2024 X'' COMMENT_MAP
        [''a.py'' \<mapsto> Text ''# Copyright (c) 2020 Y\<newline>x = 1\<newline>'']
       = (AlreadyFound, [''a.py'' \<mapsto> Text ''# Copyright (c) 2020 Y\<newline>x = 1\<newline>''])"
proof -
  have u: "universal_newlines ''# Copyright (c) 2020 Y\<newline>x = 1\<newline>''
             = ''# Copyright (c) 2020 Y\<newline>x = 1\<newline>''"
    by (rule universal_newlines_id) (simp add: carriage_return_def)
  from skip_leaves_file_unchanged
          [where comment_map = COMMENT_MAP and file_path = "''notes.txt''"
             and copyright_text = "''Copyright (c) 2024 X''"
             and st = "[''notes.txt'' \<mapsto> Text ''hello'']"
             and style = "(''#'', '''')" and content = "''hello''" and e = "''txt''"]
        skip_leaves_file_unchanged
          [where comment_map = COMMENT_MAP and file_path = "''a.py''"
             and copyright_text = "''Copyright (c) 2024 X''"
             and st = "[''a.py'' \<mapsto> Text ''# Copyright (c) 2020 Y\<newline>x = 1\<newline>'']"
             and style = "(''#'', '''')"
             and content = "''# Copyright (c) 2020 Y\<newline>x = 1\<newline>''" and e = "''py''"]
  show ?thesis
    by (simp add: u extension_of_def COMMENT_MAP_def text_defs path_defs)
qed

section \<open>Validation of the requested extensions\<close>

text \<open>
  C3. If some requested extension (an item of the comma-separated list, stripped) is
  not in the supported set, the run ends with exit status 1, no file has been handed to
  the inserter, and every file is as it was.
\<close>

theorem unsupported_extension_aborts:
  assumes "e \<in> set (map str_strip (str_split CHR '','' file_extensions_str))"
    and "e \<notin> SUPPORTED_EXTENSIONS"
  shows "main directory_to_search file_extensions_str excluded_dirs_str dirs st
           = \<lparr>exit_status = 1, messages = [], files_after = st\<rparr>"
proof -
  have "set (map str_strip (str_split CHR '','' file_extensions_str)) - SUPPORTED_EXTENSIONS
          \<noteq> {}"
    using assms by blast
  then show ?thesis
    by (simp add: main_def Let_def)
qed

theorem unsupported_extension_aborts_witness:
  "''txt'' \<in> set (map str_strip (str_split CHR '','' ''py, txt''))
   \<and> ''txt'' \<notin> SUPPORTED_EXTENSIONS
   \<and> main ''proj'' ''py, txt'' ''venv'' [''proj'' \<mapsto> [FileE ''a.py'', FileE ''b.txt'']]
        [''copyright.txt'' \<mapsto> Text ''Copyright (c) 2024 X'', ''proj/a.py'' \<mapsto> Text ''x = 1'']
       = \<lparr>exit_status = 1, messages = [],
          files_after = [''copyright.txt'' \<mapsto> Text ''Copyright (c) 2024 X'',
                         ''proj/a.py'' \<mapsto> Text ''x = 1'']\<rparr>"
  using unsupported_extension_aborts
          [where e = "''txt''" and file_extensions_str = "''py, txt''"
             and directory_to_search = "''proj''" and excluded_dirs_str = "''venv''"
             and dirs = "[''proj'' \<mapsto> [FileE ''a.py'', FileE ''b.txt'']]"
             and st = "[''copyright.txt'' \<mapsto> Text ''Copyright (c) 2024 X'',
                        ''proj/a.py'' \<mapsto> Text ''x = 1'']"]
  by (simp add: SUPPORTED_EXTENSIONS_def text_defs)

section \<open>The batch over the candidates\<close>

lemma process_files_paths:
  "map fst (fst (process_files found copyright_text st)) = found"
  by (induction found arbitrary: st) (simp_all add: Let_def case_prod_beta)

lemma process_files_append:
  "process_files (xs @ ys) copyright_text st
     = (fst (process_files xs copyright_text st)
          @ fst (process_files ys copyright_text (snd (process_files xs copyright_text st))),
        snd (process_files ys copyright_text (snd (process_files xs copyright_text st))))"
  by (induction xs arbitrary: st) (simp_all add: Let_def case_prod_beta)

lemma prepend_copyright_raised:
  "fst (prepend_copyright_try file_path copyright_text comment_map st) = Inl e \<Longrightarrow>
   prepend_copyright file_path copyright_text comment_map st
     = (ErrorProcessing e, snd (prepend_copyright_try file_path copyright_text comment_map st))"
  by (simp add: prepend_copyright_def case_prod_beta)

text \<open>
  C9. The batch hands every candidate to the inserter, in order, and yields one message
  per candidate. Wherever in the list a candidate stands, if the body of the inserter
  raises on it (while opening, decoding or rewriting the file), the exception ends as
  that candidate's "Error processing file" message, and the candidates after it are
  processed exactly as a batch of their own would be, started on the files as the
  failure left them.
\<close>

theorem batch_runs_to_completion:
  "map fst (fst (process_files found_files copyright_text st)) = found_files
   \<and> (fst (prepend_copyright_try file_path copyright_text COMMENT_MAP
              (snd (process_files before copyright_text st))) = Inl e \<longrightarrow>
        process_files (before @ file_path # rest) copyright_text st
          = (fst (process_files before copyright_text st)
               @ (file_path, ErrorProcessing e)
                 # fst (process_files rest copyright_text
                          (snd (prepend_copyright_try file_path copyright_text COMMENT_MAP
                                  (snd (process_files before copyright_text st))))),
             snd (process_files rest copyright_text
                    (snd (prepend_copyright_try file_path copyright_text COMMENT_MAP
                            (snd (process_files before copyright_text st)))))))"
proof (intro conjI impI)
  show "map fst (fst (process_files found_files copyright_text st)) = found_files"
    by (rule process_files_paths)
next
  let ?st1 = "snd (process_files before copyright_text st)"
  let ?st2 = "snd (prepend_copyright_try file_path copyright_text COMMENT_MAP ?st1)"
  assume "fst (prepend_copyright_try file_path copyright_text COMMENT_MAP ?st1) = Inl e"
  then have "prepend_copyright file_path copyright_text COMMENT_MAP ?st1
               = (ErrorProcessing e, ?st2)"
    by (rule prepend_copyright_raised)
  then have "process_files (file_path # rest) copyright_text ?st1
               = ((file_path, ErrorProcessing e) # fst (process_files rest copyright_text ?st2),
                  snd (process_files rest copyright_text ?st2))"
    by (simp add: case_prod_beta)
  then show "process_files (before @ file_path # rest) copyright_text st
          = (fst (process_files before copyright_text st)
               @ (file_path, ErrorProcessing e) # fst (process_files rest copyright_text ?st2),
             snd (process_files rest copyright_text ?st2))"
    by (simp add: process_files_append [of before])
qed

theorem batch_runs_to_completion_witness:
  "map fst (fst (process_files [''a.py'', ''b.py'', ''c.py'', ''d.py'', ''e.py'']
       ''Copyright (c) 2024 X''
       [''a.py'' \<mapsto> Text ''x = 1'', ''b.py'' \<mapsto> Undecodable,
        ''c.py'' \<mapsto> FailingText ''y = 2'' 4, ''e.py'' \<mapsto> Text ''z = 3'']))
     = [''a.py'', ''b.py'', ''c.py'', ''d.py'', ''e.py'']
   \<and> fst (prepend_copyright_try ''c.py'' ''Copyright (c) 2024 X'' COMMENT_MAP
            (snd (process_files [''a.py'', ''b.py''] ''Copyright (c) 2024 X''
               [''a.py'' \<mapsto> Text ''x = 1'', ''b.py'' \<mapsto> Undecodable,
                ''c.py'' \<mapsto> FailingText ''y = 2'' 4, ''e.py'' \<mapsto> Text ''z = 3''])))
       = Inl OSError
   \<and> fst (process_files [''a.py'', ''b.py'', ''c.py'', ''d.py'', ''e.py'']
       ''Copyright (c) 2024 X''
       [''a.py'' \<mapsto> Text ''x = 1'', ''b.py'' \<mapsto> Undecodable,
        ''c.py'' \<mapsto> FailingText ''y = 2'' 4, ''e.py'' \<mapsto> Text ''z = 3''])
       = [(''a.py'', Added), (''b.py'', ErrorProcessing UnicodeDecodeError),
          (''c.py'', ErrorProcessing OSError), (''d.py'', ErrorProcessing OSError),
          (''e.py'', Added)]
   \<and> snd (process_files [''a.py'', ''b.py'', ''c.py'', ''d.py'', ''e.py'']
       ''Copyright (c) 2024 X''
       [''a.py'' \<mapsto> Text ''x = 1'', ''b.py'' \<mapsto> Undecodable,
        ''c.py'' \<mapsto> FailingText ''y = 2'' 4, ''e.py'' \<mapsto> Text ''z = 3'']) ''c.py''
       = Some (FailingText ''# Co'' 4)"
proof -
  let ?t = "''Copyright (c) 2024 X''"
  let ?st = "[''a.py'' \<mapsto> Text ''x = 1'', ''b.py'' \<mapsto> Undecodable,
              ''c.py'' \<mapsto> FailingText ''y = 2'' 4, ''e.py'' \<mapsto> Text ''z = 3'']"
  have b: "process_files [''a.py'', ''b.py''] ?t ?st
      = ([(''a.py'', Added), (''b.py'', ErrorProcessing UnicodeDecodeError)],
         ?st(''a.py'' \<mapsto> Text ''# Copyright (c) 2024 X\<newline>\<newline>x = 1''))"
    by (simp add: Let_def inserter_defs text_defs path_defs)
  have c: "prepend_copyright_try ''c.py'' ?t COMMENT_MAP
             (?st(''a.py'' \<mapsto> Text ''# Copyright (c) 2024 X\<newline>\<newline>x = 1''))
      = (Inl OSError, ?st(''a.py'' \<mapsto> Text ''# Copyright (c) 2024 X\<newline>\<newline>x = 1'',
                          ''c.py'' \<mapsto> FailingText ''# Co'' 4))"
    by (simp add: Let_def inserter_defs text_defs path_defs)
  have r: "process_files [''d.py'', ''e.py''] ?t
             (?st(''a.py'' \<mapsto> Text ''# Copyright (c) 2024 X\<newline>\<newline>x = 1'',
                  ''c.py'' \<mapsto> FailingText ''# Co'' 4))
      = ([(''d.py'', ErrorProcessing OSError), (''e.py'', Added)],
         ?st(''a.py'' \<mapsto> Text ''# Copyright (c) 2024 X\<newline>\<newline>x = 1'',
             ''c.py'' \<mapsto> FailingText ''# Co'' 4,
             ''e.py'' \<mapsto> Text ''# Copyright (c) 2024 X\<newline>\<newline>z = 3''))"
    by (simp add: Let_def inserter_defs text_defs path_defs)
  note t = batch_runs_to_completion
      [where found_files = "[''a.py'', ''b.py'', ''c.py'', ''d.py'', ''e.py'']"
         and copyright_text = ?t and st = ?st and before = "[''a.py'', ''b.py'']"
         and file_path = "''c.py''" and e = OSError and rest = "[''d.py'', ''e.py'']"]
  from t b c r show ?thesis
    by simp
qed

section \<open>The Dockerfile keyword\<close>

text \<open>
  C2. The claim says that a requested list containing \<open>dockerfile\<close> is accepted by the
  run. On the code it is not: \<open>dockerfile\<close> is missing from the supported set, so the
  run ends with exit status 1 and hands no file to the inserter, although the scanner
  called with the same list returns the Dockerfile and the inserter has a branch for
  it (which ends in the "no comment style" warning).
\<close>

theorem dockerfile_keyword_rejected_by_run:
  "main ''proj'' ''dockerfile'' '''' [''proj'' \<mapsto> [FileE ''Dockerfile'', FileE ''app.py'']]
      [''copyright.txt'' \<mapsto> Text ''Copyright (c) 2024 X'',
       ''proj/Dockerfile'' \<mapsto> Text ''FROM alpine\<newline>'']
     = \<lparr>exit_status = 1, messages = [],
        files_after = [''copyright.txt'' \<mapsto> Text ''Copyright (c) 2024 X'',
                       ''proj/Dockerfile'' \<mapsto> Text ''FROM alpine\<newline>'']\<rparr>
   \<and> find_files_by_extensions [''proj'' \<mapsto> [FileE ''Dockerfile'', FileE ''app.py'']]
         ''proj'' ''dockerfile'' (Some {}) = [''proj/Dockerfile'']
   \<and> fst (prepend_copyright ''proj/Dockerfile'' ''Copyright (c) 2024 X'' COMMENT_MAP
         [''copyright.txt'' \<mapsto> Text ''Copyright (c) 2024 X'',
          ''proj/Dockerfile'' \<mapsto> Text ''FROM alpine\<newline>''])
       = NoCommentStyle ''dockerfile''"
  by (simp add: main_def SUPPORTED_EXTENSIONS_def scanner_defs inserter_defs text_defs path_defs)

section \<open>The layout of the formatted notice\<close>

text \<open>
  C6. With a non-empty end marker the formatted notice is the start marker on a line of
  its own, then every line of the stripped notice text prefixed with \<open>" * "\<close> and
  right-stripped, then a closing line made of a space and the end marker; with an
  empty end marker it is every line of the stripped notice text prefixed with the
  start marker and a space, right-stripped. Every line ends with a line feed.
\<close>

theorem formatted_notice_layout:
  "formatted_notice (start_marker, end_marker) copyright_text =
     (if end_marker \<noteq> []
      then start_marker @ [newline]
           @ concat (map (\<lambda>line. str_rstrip ('' * '' @ line) @ [newline])
                       (str_split newline (str_strip copyright_text)))
           @ '' '' @ end_marker @ [newline]
      else concat (map (\<lambda>line. str_rstrip (start_marker @ '' '' @ line) @ [newline])
                     (str_split newline (str_strip copyright_text))))"
  by (simp add: formatted_notice_def notice_lines_def copyright_lines_def
        str_join_newline_terminated str_split_not_Nil comp_def)

theorem formatted_notice_layout_witness:
  "COMMENT_MAP ''js'' = Some (''/*'', '' */'')
   \<and> formatted_notice (''/*'', '' */'')
        ''  Copyright (c) 2024 X  \<newline>\<newline>All rights reserved.\<newline>''
       = ''/*\<newline> * Copyright (c) 2024 X\<newline> *\<newline> * All rights reserved.\<newline>  */\<newline>''
   \<and> COMMENT_MAP ''py'' = Some (''#'', '''')
   \<and> formatted_notice (''#'', '''')
        ''  Copyright (c) 2024 X  \<newline>\<newline>All rights reserved.\<newline>''
       = ''# Copyright (c) 2024 X\<newline>#\<newline># All rights reserved.\<newline>''"
  using formatted_notice_layout
          [of "''/*''" "'' */''" "''  Copyright (c) 2024 X  \<newline>\<newline>All rights reserved.\<newline>''"]
        formatted_notice_layout
          [of "''#''" "''''" "''  Copyright (c) 2024 X  \<newline>\<newline>All rights reserved.\<newline>''"]
  by (simp add: COMMENT_MAP_def text_defs)

section \<open>The rewritten file\<close>

lemma special_first_line_concat:
  "fst (special_first_line extension ls) @ concat (snd (special_first_line extension ls))
     = concat ls"
  by (simp add: special_first_line_def split: list.splits)

lemma concat_lines_eq_Nil: "[] \<notin> set xs \<Longrightarrow> (concat xs = []) = (xs = [])"
  by (cases xs) auto

lemma special_first_line_rest_subset:
  "set (snd (special_first_line extension ls)) \<subseteq> set ls"
  by (auto simp: special_first_line_def split: list.splits)

lemma readlines_Nil: "(readlines s = []) = (s = [])"
  by (cases s) (auto split: list.splits)

lemma readlines_first:
  "readlines s = l # ls \<Longrightarrow>
   l = takeWhile (\<lambda>c. c \<noteq> newline) s @ take 1 (dropWhile (\<lambda>c. c \<noteq> newline) s)"
proof (induction s arbitrary: l ls)
  case Nil
  then show ?case by simp
next
  case (Cons c cs)
  show ?case
  proof (cases "c = newline")
    case True
    with Cons.prems show ?thesis by simp
  next
    case False
    show ?thesis
    proof (cases "readlines cs")
      case Nil
      then have "cs = []" by (simp add: readlines_Nil)
      with Cons.prems False show ?thesis by auto
    next
      case (Cons l' ls')
      from Cons.IH [OF this]
      have "l' = takeWhile (\<lambda>c. c \<noteq> newline) cs @ take 1 (dropWhile (\<lambda>c. c \<noteq> newline) cs)" .
      with Cons.prems False Cons show ?thesis by simp
    qed
  qed
qed

text \<open>The special first line, said without the list of lines.\<close>

lemma special_first_line_explicit:
  "fst (special_first_line extension (readlines text))
     = (let line1 = takeWhile (\<lambda>c. c \<noteq> newline) text
                      @ take 1 (dropWhile (\<lambda>c. c \<noteq> newline) text)
        in if startswith line1 ''#!'' \<or> startswith (str_strip line1) ''<?php''
              \<or> (extension = ''html'' \<and> startswith (str_lower line1) ''<!doctype'')
           then line1 else [])"
proof (cases "readlines text")
  case Nil
  then have "text = []" by (simp add: readlines_Nil)
  then show ?thesis
    by (simp add: special_first_line_def startswith_def str_strip_def str_rstrip_def
          str_lstrip_def str_lower_def)
next
  case (Cons l ls)
  from readlines_first [OF this] Cons show ?thesis
    by (simp add: special_first_line_def Let_def)
qed

lemma prepend_copyright_added:
  assumes "comment_map (extension_of file_path) = Some style"
    and "st file_path = Some (Text content)"
    and "\<not> has_notice (readlines (universal_newlines content))"
  shows "prepend_copyright file_path copyright_text comment_map st
           = (Added, st(file_path \<mapsto> Text
                (rewritten (extension_of file_path) style copyright_text
                   (readlines (universal_newlines content)))))"
  using assms by (simp add: prepend_copyright_def prepend_copyright_try_def Let_def)

lemma rewritten_explicit:
  "rewritten extension style copyright_text (readlines text)
     = (let first_line = fst (special_first_line extension (readlines text));
            remaining = drop (length first_line) text
        in first_line @ formatted_notice style copyright_text
           @ (if remaining = [] then [] else [newline] @ remaining))"
proof -
  let ?first = "fst (special_first_line extension (readlines text))"
  let ?rest = "snd (special_first_line extension (readlines text))"
  have c: "text = ?first @ concat ?rest"
    using special_first_line_concat [of extension "readlines text"]
    by (simp add: readlines_concat)
  have d: "drop (length ?first) text = concat ?rest"
    by (subst c) simp
  have "[] \<notin> set ?rest"
    using special_first_line_rest_subset [of extension "readlines text"]
      readlines_no_empty_line [of "text"]
    by auto
  then have e: "(concat ?rest = []) = (?rest = [])"
    by (rule concat_lines_eq_Nil)
  have "rewritten extension style copyright_text (readlines text)
          = ?first @ formatted_notice style copyright_text
            @ (if ?rest \<noteq> [] then [newline] @ concat ?rest else [])"
    by (simp add: rewritten_def case_prod_beta)
  then have "rewritten extension style copyright_text (readlines text)
          = ?first @ formatted_notice style copyright_text
            @ (if concat ?rest = [] then [] else [newline] @ concat ?rest)"
    unfolding e by (cases "?rest = []") simp_all
  then show ?thesis
    unfolding Let_def d .
qed

lemma first_line_is_prefix:
  "text = fst (special_first_line extension (readlines text))
          @ drop (length (fst (special_first_line extension (readlines text)))) text"
proof -
  let ?first = "fst (special_first_line extension (readlines text))"
  have "text = ?first @ concat (snd (special_first_line extension (readlines text)))"
    using special_first_line_concat [of extension "readlines text"]
    by (simp add: readlines_concat)
  then have "take (length ?first) text = ?first"
    by (metis append_eq_conv_conj)
  then show ?thesis
    by (metis append_take_drop_id)
qed

text \<open>
  C7 as stated fails for a file with carriage returns: the file is read in text mode, so
  what follows the notice is the original content with every line end turned into a
  line feed, not the original content as it was.
\<close>

theorem crlf_content_is_not_kept:
  "snd (prepend_copyright ''a.py'' ''Copyright (c) 2024 X'' COMMENT_MAP
          [''a.py'' \<mapsto> Text (''x = 1'' @ [carriage_return, newline]
                               @ ''y = 2'' @ [carriage_return, newline])]) ''a.py''
     = Some (Text ''# Copyright (c) 2024 X\<newline>\<newline>x = 1\<newline>y = 2\<newline>'')
   \<and> \<not> suffix (''x = 1'' @ [carriage_return, newline] @ ''y = 2'' @ [carriage_return, newline])
         ''# Copyright (c) 2024 X\<newline>\<newline>x = 1\<newline>y = 2\<newline>''"
  by (simp add: Let_def suffix_to_prefix inserter_defs text_defs path_defs)

text \<open>
  C7, amended. When the inserter adds the notice, the new content is the preserved
  special first line (if any), the formatted notice, and then, only if anything remains
  of the text after that first line, one line feed followed by the remaining text,
  where the text is the original content as text mode reads it: every carriage return
  with its line feed, and every carriage return alone, is one line feed, and nothing
  else is changed (so a content without carriage returns follows as it was). The first
  line is the text up to and including its first line feed.
\<close>

theorem notice_then_one_blank_line_then_rest:
  assumes "comment_map (extension_of file_path) = Some style"
    and "st file_path = Some (Text content)"
    and "\<not> has_notice (readlines (universal_newlines content))"
  shows "let text = universal_newlines content;
             line1 = takeWhile (\<lambda>c. c \<noteq> newline) text
                       @ take 1 (dropWhile (\<lambda>c. c \<noteq> newline) text);
             first_line =
               (if startswith line1 ''#!'' \<or> startswith (str_strip line1) ''<?php''
                   \<or> (extension_of file_path = ''html''
                        \<and> startswith (str_lower line1) ''<!doctype'')
                then line1 else []);
             remaining = drop (length first_line) text
         in text = first_line @ remaining
            \<and> (carriage_return \<notin> set content \<longrightarrow> text = content)
            \<and> prepend_copyright file_path copyright_text comment_map st
                = (Added, st(file_path \<mapsto> Text
                     (first_line @ formatted_notice style copyright_text
                      @ (if remaining = [] then [] else [newline] @ remaining))))"
proof -
  let ?text = "universal_newlines content"
  let ?first = "fst (special_first_line (extension_of file_path) (readlines ?text))"
  have a: "?text = ?first @ drop (length ?first) ?text"
    by (rule first_line_is_prefix)
  have b: "carriage_return \<notin> set content \<longrightarrow> ?text = content"
    by (simp add: universal_newlines_id)
  have c: "prepend_copyright file_path copyright_text comment_map st
      = (Added, st(file_path \<mapsto> Text
           (?first @ formatted_notice style copyright_text
            @ (if drop (length ?first) ?text = [] then []
               else [newline] @ drop (length ?first) ?text))))"
    using prepend_copyright_added
            [where comment_map = comment_map and file_path = file_path and style = style
               and st = st and content = content and copyright_text = copyright_text,
             OF assms]
    by (simp only: rewritten_explicit Let_def)
  from a b c show ?thesis
    unfolding Let_def special_first_line_explicit [unfolded Let_def, symmetric]
    by (intro conjI)
qed

theorem notice_then_one_blank_line_then_rest_witness:
  "COMMENT_MAP (extension_of ''a.py'') = Some (''#'', '''')
   \<and> \<not> has_notice (readlines (universal_newlines ''print(1)\<newline>''))
   \<and> carriage_return \<notin> set ''print(1)\<newline>''
   \<and> prepend_copyright ''a.py'' ''Copyright (c) 2024 X'' COMMENT_MAP
         [''a.py'' \<mapsto> Text ''print(1)\<newline>'']
       = (Added, [''a.py'' \<mapsto> Text ''# Copyright (c) 2024 X\<newline>\<newline>print(1)\<newline>''])
   \<and> COMMENT_MAP (extension_of ''run.sh'') = Some (''#'', '''')
   \<and> \<not> has_notice (readlines (universal_newlines (''#!/bin/sh'' @ [carriage_return, newline])))
   \<and> prepend_copyright ''run.sh'' ''Copyright (c) 2024 X'' COMMENT_MAP
         [''run.sh'' \<mapsto> Text (''#!/bin/sh'' @ [carriage_return, newline])]
       = (Added, [''run.sh'' \<mapsto> Text ''#!/bin/sh\<newline># Copyright (c) 2024 X\<newline>''])"
  using notice_then_one_blank_line_then_rest
          [where comment_map = COMMENT_MAP and file_path = "''a.py''" and style = "(''#'', '''')"
             and st = "[''a.py'' \<mapsto> Text ''print(1)\<newline>'']"
             and content = "''print(1)\<newline>''" and copyright_text = "''Copyright (c) 2024 X''"]
        notice_then_one_blank_line_then_rest
          [where comment_map = COMMENT_MAP and file_path = "''run.sh''" and style = "(''#'', '''')"
             and st = "[''run.sh'' \<mapsto> Text (''#!/bin/sh'' @ [carriage_return, newline])]"
             and content = "''#!/bin/sh'' @ [carriage_return, newline]"
             and copyright_text = "''Copyright (c) 2024 X''"]
  by (simp add: Let_def extension_of_def has_notice_def
        formatted_notice_def notice_lines_def copyright_lines_def COMMENT_MAP_def
        text_defs path_defs)

section \<open>A special first line without a line feed\<close>

text \<open>
  C8. The claim says that a special first line stays the first line and that the notice
  starts on the line after it. A file that consists of a shebang with no line feed at
  its end is rewritten with the notice on the same line as the shebang.
\<close>

theorem shebang_without_newline_is_merged:
  "snd (prepend_copyright ''run.sh'' ''Copyright (c) 2024 X'' COMMENT_MAP
          [''run.sh'' \<mapsto> Text ''#!/bin/sh'']) ''run.sh''
     = Some (Text ''#!/bin/sh# Copyright (c) 2024 X\<newline>'')
   \<and> readlines ''#!/bin/sh# Copyright (c) 2024 X\<newline>''
     = [''#!/bin/sh# Copyright (c) 2024 X\<newline>'']"
  by (simp add: inserter_defs text_defs path_defs)

section \<open>Running the insertion twice\<close>

lemma readlines_line_break:
  "newline \<notin> set a \<Longrightarrow> readlines (a @ newline # b) = (a @ [newline]) # readlines b"
  by (induction a) auto

lemma readlines_without_break:
  "newline \<notin> set a \<Longrightarrow> readlines a = (if a = [] then [] else [a])"
  by (induction a) auto

lemma readlines_single_line:
  "newline \<notin> set a \<Longrightarrow> a \<noteq> [] \<Longrightarrow> readlines a = [a]"
  by (simp add: readlines_without_break)

lemma readlines_line_count: "l \<in> set (readlines s) \<Longrightarrow> count_list l newline \<le> 1"
  by (induction s arbitrary: l) (auto split: list.splits if_splits)

lemma first_line_without_break:
  assumes "newline \<notin> set pre" and "newline \<notin> set m" and "m \<noteq> []"
  shows "\<exists>l ls. readlines (pre @ m @ post) = l # ls \<and> sublist m l"
proof (cases "newline \<in> set post")
  case True
  then obtain b post' where post: "post = b @ newline # post'" and b: "newline \<notin> set b"
    by (auto dest: split_list_first)
  have "readlines ((pre @ m @ b) @ newline # post') = ((pre @ m @ b) @ [newline]) # readlines post'"
    by (rule readlines_line_break) (use assms b in auto)
  moreover have "sublist m ((pre @ m @ b) @ [newline])"
    by (auto simp: sublist_def)
  ultimately show ?thesis
    unfolding post by (metis append.assoc)
next
  case False
  with assms have "readlines (pre @ m @ post) = [pre @ m @ post]"
    by (intro readlines_single_line) auto
  then show ?thesis
    by (auto simp: sublist_def)
qed

lemma marker_in_first_lines:
  assumes "newline \<notin> set m" and "m \<noteq> []"
  shows "count_list pre newline < n \<Longrightarrow>
         \<exists>line \<in> set (take n (readlines (pre @ m @ post))). sublist m line"
proof (induction n arbitrary: pre)
  case 0
  then show ?case by simp
next
  case (Suc n)
  show ?case
  proof (cases "newline \<in> set pre")
    case False
    from first_line_without_break [OF False assms]
    obtain l ls where "readlines (pre @ m @ post) = l # ls" and "sublist m l"
      by blast
    then show ?thesis by simp
  next
    case True
    then obtain a pre' where pre: "pre = a @ newline # pre'" and a: "newline \<notin> set a"
      by (auto dest: split_list_first)
    from Suc.prems have "count_list pre' newline < n"
      by (simp add: pre)
    from Suc.IH [OF this]
    obtain line where "line \<in> set (take n (readlines (pre' @ m @ post)))" and "sublist m line"
      by blast
    moreover have "readlines (pre @ m @ post) = (a @ [newline]) # readlines (pre' @ m @ post)"
      using readlines_line_break [OF a, of "pre' @ m @ post"] by (simp add: pre)
    ultimately show ?thesis
      by auto
  qed
qed

lemma str_split_no_sep: "w \<in> set (str_split sep s) \<Longrightarrow> sep \<notin> set w"
  by (induction s arbitrary: w) (auto split: list.splits if_splits)

lemma set_str_rstrip: "set (str_rstrip s) \<subseteq> set s"
  by (auto simp: str_rstrip_def dest: set_dropWhileD)

lemma str_rstrip_keeps:
  assumes "m \<noteq> []" and "\<not> isspace (last m)"
  shows "str_rstrip (x @ m @ b) = x @ m @ str_rstrip b"
proof -
  from assms obtain m' c where m: "m = m' @ [c]" and c: "\<not> isspace c"
    by (cases m rule: rev_cases) auto
  have "dropWhile isspace (rev b @ c # (rev m' @ rev x))
          = dropWhile isspace (rev b) @ c # (rev m' @ rev x)"
    using c by (rule dropWhile_append3)
  then show ?thesis
    by (simp add: str_rstrip_def m)
qed

lemma count_terminated_lines:
  "(\<And>l. l \<in> set ls \<Longrightarrow> count_list (f l) newline = 1) \<Longrightarrow>
   count_list (concat (map f ls)) newline = length ls"
  by (induction ls) auto

lemma formatted_notice_eq:
  "formatted_notice (start_marker, end_marker) copyright_text =
     (if end_marker \<noteq> []
      then start_marker @ [newline]
           @ concat (map (\<lambda>line. str_rstrip ('' * '' @ line) @ [newline])
                       (str_split newline (str_strip copyright_text)))
           @ '' '' @ end_marker @ [newline]
      else concat (map (\<lambda>line. str_rstrip (start_marker @ '' '' @ line) @ [newline])
                     (str_split newline (str_strip copyright_text))))"
  by (simp add: formatted_notice_def notice_lines_def copyright_lines_def
        str_join_newline_terminated str_split_not_Nil comp_def)

lemma count_list_absent: "x \<notin> set xs \<Longrightarrow> count_list xs x = 0"
  by (induction xs) auto

lemma prefixed_lines_marker:
  assumes q: "newline \<notin> set q"
    and i: "i < length (str_split newline s)"
    and line: "str_split newline s ! i = a @ m @ b"
    and m: "m \<noteq> []" "\<not> isspace (last m)"
  shows "\<exists>pre post.
           concat (map (\<lambda>line. str_rstrip (q @ line) @ [newline]) (str_split newline s))
             = pre @ m @ post
           \<and> count_list pre newline = i"
proof -
  define L where "L = str_split newline s"
  define f where "f = (\<lambda>line. str_rstrip (q @ line) @ [newline])"
  have free: "newline \<notin> set l" if "l \<in> set L" for l
    using that unfolding L_def by (rule str_split_no_sep)
  have one: "count_list (f l) newline = 1" if "l \<in> set (take i L)" for l
  proof -
    from that have "l \<in> set L" by (rule in_set_takeD)
    then have "newline \<notin> set l" by (rule free)
    with q have "newline \<notin> set (q @ l)" by simp
    with set_str_rstrip [of "q @ l"] have "newline \<notin> set (str_rstrip (q @ l))" by blast
    then have "count_list (str_rstrip (q @ l)) newline = 0" by (rule count_list_absent)
    then show ?thesis by (simp add: f_def)
  qed
  have "count_list (concat (map f (take i L))) newline = length (take i L)"
    by (rule count_terminated_lines) (rule one)
  with i have cnt: "count_list (concat (map f (take i L))) newline = i"
    by (simp add: L_def)
  have iL: "i < length L" using i by (simp add: L_def)
  then have "L ! i \<in> set L" by simp
  then have "newline \<notin> set (L ! i)" by (rule free)
  with line have a: "newline \<notin> set a" by (simp add: L_def)
  have fi: "f (L ! i) = (q @ a) @ m @ str_rstrip b @ [newline]"
    using str_rstrip_keeps [OF m, of "q @ a" b] line by (simp add: f_def L_def)
  have split: "take i L @ L ! i # drop (Suc i) L = L"
    using iL by (rule id_take_nth_drop [symmetric])
  have "concat (map f (take i L @ L ! i # drop (Suc i) L))
      = concat (map f (take i L)) @ f (L ! i) @ concat (map f (drop (Suc i) L))"
    by simp
  then have "concat (map f L)
      = concat (map f (take i L)) @ f (L ! i) @ concat (map f (drop (Suc i) L))"
    by (simp only: split)
  then have eq: "concat (map f L)
      = (concat (map f (take i L)) @ q @ a) @ m
        @ (str_rstrip b @ [newline] @ concat (map f (drop (Suc i) L)))"
    by (simp only: fi append_assoc)
  have "count_list (q @ a) newline = 0"
    by (rule count_list_absent) (use q a in simp)
  with cnt have "count_list (concat (map f (take i L)) @ q @ a) newline = i"
    by simp
  with eq show ?thesis
    unfolding L_def f_def by blast
qed

lemma formatted_notice_marker:
  assumes s: "newline \<notin> set start_marker"
    and i: "i < length (str_split newline (str_strip copyright_text))"
    and line: "str_split newline (str_strip copyright_text) ! i = a @ m @ b"
    and m: "m \<noteq> []" "\<not> isspace (last m)"
  shows "\<exists>pre post. formatted_notice (start_marker, end_marker) copyright_text = pre @ m @ post
           \<and> count_list pre newline \<le> Suc i"
proof (cases "end_marker = []")
  case True
  have "newline \<notin> set (start_marker @ '' '')"
    using s by (simp add: newline_def)
  from prefixed_lines_marker [OF this i line m]
  obtain pre post where
    "concat (map (\<lambda>line. str_rstrip ((start_marker @ '' '') @ line) @ [newline])
        (str_split newline (str_strip copyright_text))) = pre @ m @ post"
    and "count_list pre newline = i"
    by blast
  then have "formatted_notice (start_marker, end_marker) copyright_text = pre @ m @ post
     \<and> count_list pre newline \<le> Suc i"
    using True by (simp add: formatted_notice_eq)
  then show ?thesis by blast
next
  case False
  have "newline \<notin> set '' * ''"
    by (simp add: newline_def)
  from prefixed_lines_marker [OF this i line m]
  obtain pre post where
    "concat (map (\<lambda>line. str_rstrip ('' * '' @ line) @ [newline])
        (str_split newline (str_strip copyright_text))) = pre @ m @ post"
    and "count_list pre newline = i"
    by blast
  then have "formatted_notice (start_marker, end_marker) copyright_text
      = (start_marker @ [newline] @ pre) @ m @ (post @ '' '' @ end_marker @ [newline])
     \<and> count_list (start_marker @ [newline] @ pre) newline \<le> Suc i"
    using False s by (simp add: formatted_notice_eq count_list_absent)
  then show ?thesis by blast
qed

lemma special_first_line_count:
  "count_list (fst (special_first_line extension (readlines content))) newline \<le> 1"
proof (cases "readlines content")
  case Nil
  then show ?thesis by (simp add: special_first_line_def)
next
  case (Cons l ls)
  then have "l \<in> set (readlines content)" by simp
  then have "count_list l newline \<le> 1" by (rule readlines_line_count)
  then show ?thesis by (simp add: special_first_line_def Cons)
qed

lemma rewritten_has_notice:
  assumes s: "newline \<notin> set start_marker"
    and i: "i < 18" "i < length (copyright_lines copyright_text)"
    and line: "sublist ''Copyright (c)'' (copyright_lines copyright_text ! i)"
  shows "has_notice (readlines (rewritten extension (start_marker, end_marker) copyright_text
           (readlines content)))"
proof -
  let ?m = "''Copyright (c)''"
  from line obtain a b where ab: "copyright_lines copyright_text ! i = a @ ?m @ b"
    by (auto simp: sublist_def)
  have m: "?m \<noteq> []" "\<not> isspace (last ?m)" "newline \<notin> set ?m"
    by (simp_all add: isspace_def newline_def)
  from formatted_notice_marker [OF s i(2) [unfolded copyright_lines_def]
      ab [unfolded copyright_lines_def] m(1,2), of end_marker]
  obtain pre post where f: "formatted_notice (start_marker, end_marker) copyright_text
       = pre @ ?m @ post" and c: "count_list pre newline \<le> Suc i"
    by blast
  define first where "first = fst (special_first_line extension (readlines content))"
  define rest where "rest = snd (special_first_line extension (readlines content))"
  have "count_list first newline \<le> 1"
    unfolding first_def by (rule special_first_line_count)
  with c i(1) have lt: "count_list (first @ pre) newline < 20"
    by simp
  have "rewritten extension (start_marker, end_marker) copyright_text (readlines content)
     = (first @ pre) @ ?m @ (post @ (if rest \<noteq> [] then [newline] @ concat rest else []))"
    by (simp add: rewritten_def first_def rest_def case_prod_beta f)
  moreover have "\<exists>l \<in> set (take 20 (readlines ((first @ pre) @ ?m
       @ (post @ (if rest \<noteq> [] then [newline] @ concat rest else []))))). sublist ?m l"
    using m(3) m(1) lt by (rule marker_in_first_lines)
  ultimately show ?thesis
    by (simp add: has_notice_def str_contains_def list_ex_iff)
qed

lemma comment_map_markers:
  assumes "COMMENT_MAP e = Some (s, t)"
  shows "newline \<notin> set s \<and> carriage_return \<notin> set s \<and> carriage_return \<notin> set t"
proof -
  from assms have "(e, (s, t)) \<in> set
     [(''c'', (''/*'', '' */'')), (''cpp'', (''/*'', '' */'')), (''h'', (''/*'', '' */'')),
      (''hpp'', (''/*'', '' */'')), (''java'', (''/*'', '' */'')), (''js'', (''/*'', '' */'')),
      (''ts'', (''/*'', '' */'')), (''cs'', (''/*'', '' */'')), (''go'', (''/*'', '' */'')),
      (''rs'', (''/*'', '' */'')), (''css'', (''/*'', '' */'')), (''scss'', (''/*'', '' */'')),
      (''php'', (''/*'', '' */'')),
      (''py'', (''#'', '''')), (''sh'', (''#'', '''')), (''rb'', (''#'', '''')),
      (''yml'', (''#'', '''')),
      (''html'', (''<!--'', '' -->''))]"
    unfolding COMMENT_MAP_def by (rule map_of_SomeD)
  then have "(s = ''/*'' \<or> s = ''#'' \<or> s = ''<!--'') \<and> (t = '' */'' \<or> t = '''' \<or> t = '' -->'')"
    by auto
  then show ?thesis
    by (auto simp: newline_def carriage_return_def)
qed

lemma str_split_subset: "w \<in> set (str_split sep s) \<Longrightarrow> set w \<subseteq> set s"
proof (induction s arbitrary: w)
  case Nil
  then show ?case by simp
next
  case (Cons c cs)
  show ?case
  proof (cases "c = sep")
    case True
    with Cons.prems have "w = [] \<or> w \<in> set (str_split sep cs)" by simp
    with Cons.IH show ?thesis by auto
  next
    case False
    obtain v vs where v: "str_split sep cs = v # vs"
      using str_split_not_Nil [of sep cs] by (cases "str_split sep cs") auto
    with Cons.prems False have "w = c # v \<or> w \<in> set vs" by simp
    moreover have "set v \<subseteq> set cs" by (rule Cons.IH) (simp add: v)
    moreover have "w \<in> set vs \<Longrightarrow> set w \<subseteq> set cs" by (rule Cons.IH) (simp add: v)
    ultimately show ?thesis by auto
  qed
qed

lemma set_str_strip: "set (str_strip s) \<subseteq> set s"
proof -
  have "set (str_rstrip (str_lstrip s)) \<subseteq> set (str_lstrip s)"
    by (rule set_str_rstrip)
  moreover have "set (str_lstrip s) \<subseteq> set s"
    by (auto simp: str_lstrip_def dest: set_dropWhileD)
  ultimately show ?thesis
    by (auto simp: str_strip_def)
qed

lemma prefixed_lines_chars:
  assumes "x \<notin> set q" and "x \<notin> set s" and "x \<noteq> newline"
  shows "x \<notin> set (concat (map (\<lambda>line. str_rstrip (q @ line) @ [newline]) (str_split newline s)))"
proof
  assume "x \<in> set (concat (map (\<lambda>line. str_rstrip (q @ line) @ [newline]) (str_split newline s)))"
  then obtain w where w: "w \<in> set (str_split newline s)"
    and x: "x \<in> set (str_rstrip (q @ w) @ [newline])"
    unfolding set_concat set_map by blast
  from x assms(3) have "x \<in> set (str_rstrip (q @ w))" by simp
  with set_str_rstrip [of "q @ w"] have "x \<in> set q \<or> x \<in> set w" by auto
  with assms(1) str_split_subset [OF w] assms(2) show False by auto
qed

lemma formatted_notice_no_carriage_return:
  assumes "carriage_return \<notin> set start_marker" and "carriage_return \<notin> set end_marker"
    and "carriage_return \<notin> set copyright_text"
  shows "carriage_return \<notin> set (formatted_notice (start_marker, end_marker) copyright_text)"
proof -
  have n: "carriage_return \<noteq> newline"
    by (simp add: newline_def carriage_return_def)
  have s: "carriage_return \<notin> set (str_strip copyright_text)"
    using set_str_strip [of copyright_text] assms(3) by auto
  have sp: "carriage_return \<noteq> CHR '' ''" "carriage_return \<noteq> CHR ''*''"
    by (simp_all add: carriage_return_def)
  show ?thesis
  proof (cases "end_marker = []")
    case True
    have "carriage_return \<notin> set (start_marker @ '' '')"
      using assms(1) sp by simp
    from prefixed_lines_chars [OF this s n] True show ?thesis
      by (simp add: formatted_notice_eq)
  next
    case False
    have "carriage_return \<notin> set '' * ''"
      using sp by simp
    from prefixed_lines_chars [OF this s n] False assms(1,2) n sp show ?thesis
      by (simp add: formatted_notice_eq)
  qed
qed

lemma rewritten_no_carriage_return:
  assumes "carriage_return \<notin> set (formatted_notice style copyright_text)"
    and "carriage_return \<notin> set content"
  shows "carriage_return \<notin> set (rewritten extension style copyright_text (readlines content))"
proof -
  let ?first = "fst (special_first_line extension (readlines content))"
  let ?rest = "snd (special_first_line extension (readlines content))"
  have "?first @ concat ?rest = content"
    using special_first_line_concat [of extension "readlines content"]
    by (simp add: readlines_concat)
  then have "set ?first \<union> set (concat ?rest) = set content"
    by (metis set_append)
  with assms(2) have "carriage_return \<notin> set ?first" "carriage_return \<notin> set (concat ?rest)"
    by blast+
  moreover have "carriage_return \<noteq> newline"
    by (simp add: newline_def carriage_return_def)
  ultimately show ?thesis
    using assms(1) by (simp add: rewritten_def case_prod_beta)
qed

text \<open>
  C1 as stated fails. The duplicate guard looks for the literal \<open>Copyright (c)\<close> in the
  first 20 lines of the file as it is read back, so a second run inserts the notice
  again when the notice text has no such literal, when the literal stands on the 19th
  line of the notice (below a preserved first line and the opening line of a block
  comment), or when carriage returns in the notice text are read back as line ends in
  front of it. A rewrite that fails part-way leaves a file that the second run treats
  differently, too.
\<close>

theorem insertion_twice_differs_without_marker:
  "snd (prepend_copyright ''a.py'' ''Copyright 2024 Example Corp'' COMMENT_MAP
          [''a.py'' \<mapsto> Text ''print(1)\<newline>'']) ''a.py''
     = Some (Text ''# Copyright 2024 Example Corp\<newline>\<newline>print(1)\<newline>'')
   \<and> snd (prepend_copyright ''a.py'' ''Copyright 2024 Example Corp'' COMMENT_MAP
          (snd (prepend_copyright ''a.py'' ''Copyright 2024 Example Corp'' COMMENT_MAP
             [''a.py'' \<mapsto> Text ''print(1)\<newline>'']))) ''a.py''
     = Some (Text (''# Copyright 2024 Example Corp\<newline>\<newline>''
                   @ ''# Copyright 2024 Example Corp\<newline>\<newline>print(1)\<newline>''))
   \<and> snd (prepend_copyright ''a.py'' ''Copyright 2024 Example Corp'' COMMENT_MAP
          (snd (prepend_copyright ''a.py'' ''Copyright 2024 Example Corp'' COMMENT_MAP
             [''a.py'' \<mapsto> Text ''print(1)\<newline>'']))) ''a.py''
     \<noteq> snd (prepend_copyright ''a.py'' ''Copyright 2024 Example Corp'' COMMENT_MAP
             [''a.py'' \<mapsto> Text ''print(1)\<newline>'']) ''a.py''
   \<and> sublist ''Copyright (c)''
         (str_split newline
            (str_strip (concat (replicate 18 ''x\<newline>'') @ ''Copyright (c) X'')) ! 18)
   \<and> snd (prepend_copyright ''a.php''
            (concat (replicate 18 ''x\<newline>'') @ ''Copyright (c) X'') COMMENT_MAP
          (snd (prepend_copyright ''a.php''
                  (concat (replicate 18 ''x\<newline>'') @ ''Copyright (c) X'') COMMENT_MAP
             [''a.php'' \<mapsto> Text ''<?php\<newline>'']))) ''a.php''
     \<noteq> snd (prepend_copyright ''a.php''
              (concat (replicate 18 ''x\<newline>'') @ ''Copyright (c) X'') COMMENT_MAP
             [''a.php'' \<mapsto> Text ''<?php\<newline>'']) ''a.php''
   \<and> sublist ''Copyright (c)''
         (str_split newline
            (str_strip (''A'' @ replicate 20 carriage_return @ ''Copyright (c) X'')) ! 0)
   \<and> snd (prepend_copyright ''a.py''
            (''A'' @ replicate 20 carriage_return @ ''Copyright (c) X'') COMMENT_MAP
          (snd (prepend_copyright ''a.py''
                  (''A'' @ replicate 20 carriage_return @ ''Copyright (c) X'') COMMENT_MAP
             [''a.py'' \<mapsto> Text ''print(1)\<newline>'']))) ''a.py''
     \<noteq> snd (prepend_copyright ''a.py''
              (''A'' @ replicate 20 carriage_return @ ''Copyright (c) X'') COMMENT_MAP
             [''a.py'' \<mapsto> Text ''print(1)\<newline>'']) ''a.py''
   \<and> snd (prepend_copyright ''a.js'' ''Copyright (c) X'' COMMENT_MAP
          (snd (prepend_copyright ''a.js'' ''Copyright (c) X'' COMMENT_MAP
             [''a.js'' \<mapsto> FailingText ''#!/usr/bin/env node\<newline>'' 1]))) ''a.js''
     \<noteq> snd (prepend_copyright ''a.js'' ''Copyright (c) X'' COMMENT_MAP
             [''a.js'' \<mapsto> FailingText ''#!/usr/bin/env node\<newline>'' 1]) ''a.js''"
  by code_simp

text \<open>
  C1, amended. If the notice text has no carriage return, the literal \<open>Copyright (c)\<close>
  occurs in one of the first 18 lines of the stripped notice text, and the file is not
  one whose rewrite fails part-way, then running the insertion twice leaves every file
  as one run leaves it: after a first run that added the notice, the literal stands in
  the first 20 lines of the file and the second run skips.
\<close>

theorem second_run_skips_when_notice_has_marker:
  assumes "carriage_return \<notin> set copyright_text"
    and "i < 18"
    and "i < length (str_split newline (str_strip copyright_text))"
    and "sublist ''Copyright (c)'' (str_split newline (str_strip copyright_text) ! i)"
    and "\<forall>c n. st file_path \<noteq> Some (FailingText c n)"
  shows "snd (prepend_copyright file_path copyright_text COMMENT_MAP
                (snd (prepend_copyright file_path copyright_text COMMENT_MAP st)))
         = snd (prepend_copyright file_path copyright_text COMMENT_MAP st)"
proof (cases "fst (prepend_copyright file_path copyright_text COMMENT_MAP st) = Added")
  case False
  with assms(5) have "snd (prepend_copyright file_path copyright_text COMMENT_MAP st) = st"
    by (auto simp: prepend_copyright_def prepend_copyright_try_def Let_def
             split: option.splits sum.splits prod.splits if_splits
             elim: rewrite_file.elims)
  then show ?thesis by simp
next
  case True
  then obtain start_marker end_marker f where
    style: "COMMENT_MAP (extension_of file_path) = Some (start_marker, end_marker)"
    and f: "st file_path = Some f"
    by (auto simp: prepend_copyright_def prepend_copyright_try_def Let_def
             split: option.splits sum.splits prod.splits if_splits)
  from True style f assms(5) obtain content where content: "f = Text content"
    by (cases f)
       (auto simp: prepend_copyright_def prepend_copyright_try_def Let_def
             split: if_splits)
  from True style f content have fresh: "\<not> has_notice (readlines (universal_newlines content))"
    by (auto simp: prepend_copyright_def prepend_copyright_try_def Let_def
             split: if_splits)
  define new where "new = rewritten (extension_of file_path) (start_marker, end_marker)
                            copyright_text (readlines (universal_newlines content))"
  have first: "prepend_copyright file_path copyright_text COMMENT_MAP st
                 = (Added, st(file_path \<mapsto> Text new))"
    using style f content fresh
    by (simp add: prepend_copyright_def prepend_copyright_try_def Let_def new_def)
  from comment_map_markers [OF style]
  have m: "newline \<notin> set start_marker" "carriage_return \<notin> set start_marker"
    "carriage_return \<notin> set end_marker"
    by simp_all
  have "carriage_return \<notin> set (formatted_notice (start_marker, end_marker) copyright_text)"
    using m(2,3) assms(1) by (rule formatted_notice_no_carriage_return)
  then have "carriage_return \<notin> set new"
    unfolding new_def
    by (rule rewritten_no_carriage_return) (rule universal_newlines_no_carriage_return)
  then have reread: "universal_newlines new = new"
    by (rule universal_newlines_id)
  have "has_notice (readlines new)"
    unfolding new_def
    by (rule rewritten_has_notice [OF m(1)])
       (use assms in \<open>simp_all add: copyright_lines_def\<close>)
  then have "prepend_copyright file_path copyright_text COMMENT_MAP (st(file_path \<mapsto> Text new))
               = (AlreadyFound, st(file_path \<mapsto> Text new))"
    using style by (simp add: prepend_copyright_def prepend_copyright_try_def Let_def reread)
  with first show ?thesis by simp
qed

theorem second_run_skips_when_notice_has_marker_witness:
  "carriage_return \<notin> set ''Copyright (c) 2024 X\<newline>''
   \<and> (0::nat) < 18
   \<and> 0 < length (str_split newline (str_strip ''Copyright (c) 2024 X\<newline>''))
   \<and> sublist ''Copyright (c)'' (str_split newline (str_strip ''Copyright (c) 2024 X\<newline>'') ! 0)
   \<and> [''a.py'' \<mapsto> Text ''print(1)\<newline>''] ''a.py'' = Some (Text ''print(1)\<newline>'')
   \<and> snd (prepend_copyright ''a.py'' ''Copyright (c) 2024 X\<newline>'' COMMENT_MAP
        [''a.py'' \<mapsto> Text ''print(1)\<newline>'']) ''a.py''
       = Some (Text ''# Copyright (c) 2024 X\<newline>\<newline>print(1)\<newline>'')
   \<and> snd (prepend_copyright ''a.py'' ''Copyright (c) 2024 X\<newline>'' COMMENT_MAP
          (snd (prepend_copyright ''a.py'' ''Copyright (c) 2024 X\<newline>'' COMMENT_MAP
             [''a.py'' \<mapsto> Text ''print(1)\<newline>''])))
       = snd (prepend_copyright ''a.py'' ''Copyright (c) 2024 X\<newline>'' COMMENT_MAP
             [''a.py'' \<mapsto> Text ''print(1)\<newline>''])"
proof -
  have h: "carriage_return \<notin> set ''Copyright (c) 2024 X\<newline>''"
    "(0::nat) < 18"
    "0 < length (str_split newline (str_strip ''Copyright (c) 2024 X\<newline>''))"
    "sublist ''Copyright (c)'' (str_split newline (str_strip ''Copyright (c) 2024 X\<newline>'') ! 0)"
    "\<forall>c n. [''a.py'' \<mapsto> Text ''print(1)\<newline>''] ''a.py'' \<noteq> Some (FailingText c n)"
    by (simp_all add: text_defs)
  have v: "snd (prepend_copyright ''a.py'' ''Copyright (c) 2024 X\<newline>'' COMMENT_MAP
        [''a.py'' \<mapsto> Text ''print(1)\<newline>'']) ''a.py''
       = Some (Text ''# Copyright (c) 2024 X\<newline>\<newline>print(1)\<newline>'')"
    by (simp add: Let_def inserter_defs text_defs path_defs)
  from h(1-4) v second_run_skips_when_notice_has_marker
      [where copyright_text = "''Copyright (c) 2024 X\<newline>''" and i = 0
         and st = "[''a.py'' \<mapsto> Text ''print(1)\<newline>'']" and file_path = "''a.py''", OF h]
  show ?thesis by simp
qed

section \<open>Excluded directories\<close>

lemma filenames_of_set: "n \<in> set (filenames_of es) \<longleftrightarrow> FileE n \<in> set es"
  by (induction es rule: filenames_of.induct) auto

lemma file_at_Cons:
  "file_at entries (d # ds) f \<longleftrightarrow> (\<exists>sub. DirE d sub \<in> set entries \<and> file_at sub ds f)"
proof
  assume "file_at entries (d # ds) f"
  then obtain e where e: "e \<in> set entries"
    and c: "case e of DirE d' sub \<Rightarrow> d' = d \<and> file_at sub ds f | FileE n \<Rightarrow> False"
    by (auto simp: list_ex_iff)
  from c obtain sub where "e = DirE d sub" "file_at sub ds f"
    by (cases e) auto
  with e show "\<exists>sub. DirE d sub \<in> set entries \<and> file_at sub ds f"
    by blast
next
  assume "\<exists>sub. DirE d sub \<in> set entries \<and> file_at sub ds f"
  then obtain sub where "DirE d sub \<in> set entries" "file_at sub ds f"
    by blast
  then have "\<exists>e \<in> set entries.
      case e of DirE d' sub \<Rightarrow> d' = d \<and> file_at sub ds f | FileE n \<Rightarrow> False"
    by (intro bexI [of _ "DirE d sub"]) simp_all
  then show "file_at entries (d # ds) f"
    by (simp add: list_ex_iff)
qed

lemma walk_sound:
  "p \<in> set (walk extensions excluded dirpath entries) \<Longrightarrow>
     \<exists>ds f. file_at entries ds f \<and> set ds \<inter> excluded = {}
            \<and> p = path_join (foldl path_join dirpath ds) f"
  "p \<in> set (walk_dirs extensions excluded dirpath entries) \<Longrightarrow>
     \<exists>d sub ds f. DirE d sub \<in> set entries \<and> d \<notin> excluded \<and> file_at sub ds f
            \<and> set ds \<inter> excluded = {}
            \<and> p = path_join (foldl path_join (path_join dirpath d) ds) f"
proof (induction extensions excluded dirpath entries and extensions excluded dirpath entries
       arbitrary: p and p rule: walk_walk_dirs.induct)
  case (1 extensions excluded_dirs dirpath entries)
  from "1.prems" consider
    (here) f where "f \<in> set (filenames_of entries)" "p = path_join dirpath f"
    | (below) "p \<in> set (walk_dirs extensions excluded_dirs dirpath entries)"
    by auto
  then show ?case
  proof cases
    case here
    then have "file_at entries [] f \<and> set [] \<inter> excluded_dirs = {}
               \<and> p = path_join (foldl path_join dirpath []) f"
      by (simp add: filenames_of_set)
    then show ?thesis by blast
  next
    case below
    from "1.IH" [OF this] obtain d sub ds f where
      "DirE d sub \<in> set entries" "d \<notin> excluded_dirs" "file_at sub ds f"
      "set ds \<inter> excluded_dirs = {}"
      "p = path_join (foldl path_join (path_join dirpath d) ds) f"
      by blast
    then have "file_at entries (d # ds) f \<and> set (d # ds) \<inter> excluded_dirs = {}
               \<and> p = path_join (foldl path_join dirpath (d # ds)) f"
      unfolding file_at_Cons by auto
    then show ?thesis by blast
  qed
next
  case (2 extensions excluded_dirs dirpath)
  then show ?case by simp
next
  case (3 extensions excluded_dirs dirpath n es)
  from "3.prems" have "p \<in> set (walk_dirs extensions excluded_dirs dirpath es)" by simp
  from "3.IH" [OF this] show ?case by auto
next
  case (4 extensions excluded_dirs dirpath d sub es)
  from "4.prems" consider
    (first) "d \<notin> excluded_dirs" "p \<in> set (walk extensions excluded_dirs (path_join dirpath d) sub)"
    | (later) "p \<in> set (walk_dirs extensions excluded_dirs dirpath es)"
    by (auto split: if_splits)
  then show ?case
  proof cases
    case first
    from "4.IH"(1) [OF first] obtain ds f where
      "file_at sub ds f" "set ds \<inter> excluded_dirs = {}"
      "p = path_join (foldl path_join (path_join dirpath d) ds) f"
      by blast
    with first(1) show ?thesis by auto
  next
    case later
    from "4.IH"(2) [OF later] show ?thesis by auto
  qed
qed

lemma path_join_name: "name_ok x \<Longrightarrow> path_join a x = dir_prefix a @ x"
  by (cases x) (auto simp: path_join_def dir_prefix_def name_ok_def startswith_def)

lemma dir_prefix_joined:
  assumes "name_ok x"
  shows "dir_prefix (dir_prefix a @ x) = dir_prefix a @ x @ ''/''"
proof -
  from assms have x: "x \<noteq> []" and "last x \<in> set x" and "CHR ''/'' \<notin> set x"
    by (simp_all add: name_ok_def)
  then have "last x \<noteq> CHR ''/''" by metis
  with x have "last (dir_prefix a @ x) \<noteq> CHR ''/''" by simp
  with x show ?thesis
    by (simp add: dir_prefix_def [of "dir_prefix a @ x"])
qed

lemma foldl_path_join_names:
  "name_ok x \<Longrightarrow> list_all name_ok xs \<Longrightarrow>
   foldl path_join a (x # xs) = dir_prefix a @ x @ concat (map (\<lambda>y. CHR ''/'' # y) xs)"
proof (induction xs arbitrary: a x)
  case Nil
  then show ?case by (simp add: path_join_name)
next
  case (Cons y ys)
  from Cons.prems have y: "name_ok y" and ys: "list_all name_ok ys" by simp_all
  have "foldl path_join a (x # y # ys) = foldl path_join (path_join a x) (y # ys)"
    by simp
  also have "\<dots> = dir_prefix (path_join a x) @ y @ concat (map (\<lambda>y. CHR ''/'' # y) ys)"
    using y ys by (rule Cons.IH)
  also have "dir_prefix (path_join a x) = dir_prefix a @ x @ ''/''"
    using Cons.prems(1) by (simp add: path_join_name dir_prefix_joined)
  finally show ?case by simp
qed

lemma slash_free_head:
  assumes "CHR ''/'' \<notin> set x" and "CHR ''/'' \<notin> set x'"
    and "r = [] \<or> hd r = CHR ''/''" and "r' = [] \<or> hd r' = CHR ''/''"
    and "x @ r = x' @ r'"
  shows "x = x' \<and> r = r'"
proof -
  have "takeWhile (\<lambda>c. c \<noteq> CHR ''/'') (x @ r) = x"
    using assms(1,3) by (cases r) (auto simp: takeWhile_append)
  moreover have "takeWhile (\<lambda>c. c \<noteq> CHR ''/'') (x' @ r') = x'"
    using assms(2,4) by (cases r') (auto simp: takeWhile_append)
  ultimately have "x = x'" using assms(5) by simp
  with assms(5) show ?thesis by simp
qed

lemma slash_separated_inj:
  "CHR ''/'' \<notin> set x \<Longrightarrow> CHR ''/'' \<notin> set x' \<Longrightarrow>
   \<forall>y \<in> set xs. CHR ''/'' \<notin> set y \<Longrightarrow> \<forall>y \<in> set xs'. CHR ''/'' \<notin> set y \<Longrightarrow>
   x @ concat (map (\<lambda>y. CHR ''/'' # y) xs) = x' @ concat (map (\<lambda>y. CHR ''/'' # y) xs') \<Longrightarrow>
   x = x' \<and> xs = xs'"
proof (induction xs arbitrary: x x' xs')
  case Nil
  have t: "concat (map (\<lambda>y. CHR ''/'' # y) xs') = []
           \<or> hd (concat (map (\<lambda>y. CHR ''/'' # y) xs')) = CHR ''/''"
    by (cases xs') simp_all
  from Nil.prems(5) have e: "x @ [] = x' @ concat (map (\<lambda>y. CHR ''/'' # y) xs')"
    by simp
  have "x = x' \<and> [] = concat (map (\<lambda>y. CHR ''/'' # y) xs')"
    using Nil.prems(1,2) _ t e by (rule slash_free_head) simp
  then show ?case by (cases xs') auto
next
  case (Cons y ys)
  have t: "concat (map (\<lambda>y. CHR ''/'' # y) xs') = []
           \<or> hd (concat (map (\<lambda>y. CHR ''/'' # y) xs')) = CHR ''/''"
    by (cases xs') simp_all
  have t': "concat (map (\<lambda>y. CHR ''/'' # y) (y # ys)) = []
           \<or> hd (concat (map (\<lambda>y. CHR ''/'' # y) (y # ys))) = CHR ''/''"
    by simp
  have h: "x = x' \<and> concat (map (\<lambda>y. CHR ''/'' # y) (y # ys))
                    = concat (map (\<lambda>y. CHR ''/'' # y) xs')"
    using Cons.prems(1,2) t' t Cons.prems(5) by (rule slash_free_head)
  then obtain y' ys' where xs': "xs' = y' # ys'"
    by (cases xs') auto
  from h have "y @ concat (map (\<lambda>y. CHR ''/'' # y) ys) = y' @ concat (map (\<lambda>y. CHR ''/'' # y) ys')"
    by (simp add: xs')
  with Cons.prems(3,4) have "y = y' \<and> ys = ys'"
    by (intro Cons.IH) (simp_all add: xs')
  with h xs' show ?case by simp
qed

lemma file_at_names_ok:
  "list_all names_ok entries \<Longrightarrow> file_at entries ds f \<Longrightarrow>
   list_all name_ok ds \<and> name_ok f"
proof (induction ds arbitrary: entries)
  case Nil
  then have "FileE f \<in> set entries" by simp
  with Nil.prems(1) have "names_ok (FileE f)" unfolding list_all_iff by blast
  then show ?case by simp
next
  case (Cons d ds)
  from Cons.prems(2) obtain sub where sub: "DirE d sub \<in> set entries" "file_at sub ds f"
    unfolding file_at_Cons by blast
  with Cons.prems(1) have "names_ok (DirE d sub)" unfolding list_all_iff by blast
  then have d: "name_ok d" and "list_all names_ok sub" by simp_all
  from Cons.IH [OF this(2) sub(2)] d show ?case by simp
qed

lemma path_of_names:
  assumes "list_all name_ok ds" and "name_ok f"
  shows "\<exists>x xs. ds @ [f] = x # xs \<and> CHR ''/'' \<notin> set x \<and> (\<forall>y \<in> set xs. CHR ''/'' \<notin> set y)
           \<and> path_of root_dir ds f
               = dir_prefix root_dir @ x @ concat (map (\<lambda>y. CHR ''/'' # y) xs)"
proof -
  obtain x xs where c: "ds @ [f] = x # xs"
    by (cases ds) auto
  from assms have all: "list_all name_ok (ds @ [f])" by simp
  then have x: "name_ok x" and xs: "list_all name_ok xs"
    unfolding c by simp_all
  have "path_of root_dir ds f = foldl path_join root_dir (ds @ [f])"
    by (simp add: path_of_def)
  also have "\<dots> = dir_prefix root_dir @ x @ concat (map (\<lambda>y. CHR ''/'' # y) xs)"
    unfolding c using x xs by (rule foldl_path_join_names)
  finally show ?thesis
    using c x xs by (auto simp: name_ok_def list_all_iff)
qed

lemma path_of_inj:
  assumes "list_all name_ok ds" "name_ok f" "list_all name_ok ds'" "name_ok f'"
    and "path_of root_dir ds f = path_of root_dir ds' f'"
  shows "ds = ds' \<and> f = f'"
proof -
  from path_of_names [OF assms(1,2), of root_dir] obtain x xs where
    a: "ds @ [f] = x # xs" "CHR ''/'' \<notin> set x" "\<forall>y \<in> set xs. CHR ''/'' \<notin> set y"
      "path_of root_dir ds f = dir_prefix root_dir @ x @ concat (map (\<lambda>y. CHR ''/'' # y) xs)"
    by blast
  from path_of_names [OF assms(3,4), of root_dir] obtain x' xs' where
    b: "ds' @ [f'] = x' # xs'" "CHR ''/'' \<notin> set x'" "\<forall>y \<in> set xs'. CHR ''/'' \<notin> set y"
      "path_of root_dir ds' f' = dir_prefix root_dir @ x' @ concat (map (\<lambda>y. CHR ''/'' # y) xs')"
    by blast
  from assms(5) a(4) b(4)
  have "x @ concat (map (\<lambda>y. CHR ''/'' # y) xs) = x' @ concat (map (\<lambda>y. CHR ''/'' # y) xs')"
    by simp
  with a(2) b(2) a(3) b(3) have "x = x' \<and> xs = xs'"
    by (rule slash_separated_inj)
  with a(1) b(1) have "ds @ [f] = ds' @ [f']" by simp
  then show ?thesis by simp
qed


text \<open>
  C4. In a listing whose names are well formed, a file that lies below the root inside
  a chain of directories one of which has an excluded name is not in the list the
  scanner returns: its path is not among the returned paths, whatever its extension
  and whatever the requested extensions are.
\<close>

theorem excluded_directories_are_not_scanned:
  assumes "dirs root_dir = Some entries"
    and "list_all names_ok entries"
    and "file_at entries ds f"
    and "d \<in> set ds" and "d \<in> excluded_dirs"
  shows "path_of root_dir ds f
           \<notin> set (find_files_by_extensions dirs root_dir extensions_str (Some excluded_dirs))"
proof
  assume "path_of root_dir ds f
            \<in> set (find_files_by_extensions dirs root_dir extensions_str (Some excluded_dirs))"
  then have "path_of root_dir ds f
      \<in> set (walk (set (map str_strip (str_split CHR '','' extensions_str))) excluded_dirs
               root_dir entries)"
    using assms(1) by (simp add: find_files_by_extensions_def)
  from walk_sound(1) [OF this] obtain ds' f' where
    found: "file_at entries ds' f'" "set ds' \<inter> excluded_dirs = {}"
      "path_of root_dir ds f = path_of root_dir ds' f'"
    unfolding path_of_def by blast
  from file_at_names_ok [OF assms(2,3)] file_at_names_ok [OF assms(2) found(1)] found(3)
  have "ds = ds' \<and> f = f'"
    by (intro path_of_inj) simp_all
  with found(2) assms(4,5) show False by auto
qed

theorem excluded_directories_are_not_scanned_witness:
  "[''proj'' \<mapsto> [FileE ''a.py'', DirE ''src'' [FileE ''c.py'', DirE ''venv'' [FileE ''d.py'']]]]
      ''proj''
     = Some [FileE ''a.py'', DirE ''src'' [FileE ''c.py'', DirE ''venv'' [FileE ''d.py'']]]
   \<and> list_all names_ok [FileE ''a.py'', DirE ''src'' [FileE ''c.py'', DirE ''venv'' [FileE ''d.py'']]]
   \<and> file_at [FileE ''a.py'', DirE ''src'' [FileE ''c.py'', DirE ''venv'' [FileE ''d.py'']]]
        [''src'', ''venv''] ''d.py''
   \<and> ''venv'' \<in> set [''src'', ''venv''] \<and> ''venv'' \<in> {''venv'', ''.git''}
   \<and> path_of ''proj'' [''src'', ''venv''] ''d.py'' = ''proj/src/venv/d.py''
   \<and> ''proj/src/venv/d.py'' \<notin> set (find_files_by_extensions
        [''proj'' \<mapsto> [FileE ''a.py'', DirE ''src'' [FileE ''c.py'', DirE ''venv'' [FileE ''d.py'']]]]
        ''proj'' ''py'' (Some {''venv'', ''.git''}))
   \<and> find_files_by_extensions
        [''proj'' \<mapsto> [FileE ''a.py'', DirE ''src'' [FileE ''c.py'', DirE ''venv'' [FileE ''d.py'']]]]
        ''proj'' ''py'' (Some {''venv'', ''.git''}) = [''proj/a.py'', ''proj/src/c.py'']"
proof -
  have r: "find_files_by_extensions
        [''proj'' \<mapsto> [FileE ''a.py'', DirE ''src'' [FileE ''c.py'', DirE ''venv'' [FileE ''d.py'']]]]
        ''proj'' ''py'' (Some {''venv'', ''.git''}) = [''proj/a.py'', ''proj/src/c.py'']"
    by (simp add: scanner_defs text_defs path_defs)
  have h: "[''proj'' \<mapsto> [FileE ''a.py'', DirE ''src'' [FileE ''c.py'', DirE ''venv'' [FileE ''d.py'']]]]
      ''proj''
     = Some [FileE ''a.py'', DirE ''src'' [FileE ''c.py'', DirE ''venv'' [FileE ''d.py'']]]"
    "list_all names_ok [FileE ''a.py'', DirE ''src'' [FileE ''c.py'', DirE ''venv'' [FileE ''d.py'']]]"
    "file_at [FileE ''a.py'', DirE ''src'' [FileE ''c.py'', DirE ''venv'' [FileE ''d.py'']]]
        [''src'', ''venv''] ''d.py''"
    "''venv'' \<in> set [''src'', ''venv'']" "''venv'' \<in> {''venv'', ''.git''}"
    by (simp_all add: name_ok_def)
  have p: "path_of ''proj'' [''src'', ''venv''] ''d.py'' = ''proj/src/venv/d.py''"
    by (simp add: path_of_def path_join_def startswith_def)
  from excluded_directories_are_not_scanned
         [where dirs = "[''proj'' \<mapsto> [FileE ''a.py'',
                          DirE ''src'' [FileE ''c.py'', DirE ''venv'' [FileE ''d.py'']]]]"
            and root_dir = "''proj''" and ds = "[''src'', ''venv'']" and f = "''d.py''"
            and d = "''venv''" and excluded_dirs = "{''venv'', ''.git''}"
            and extensions_str = "''py''", OF h]
       h p r
  show ?thesis by simp
qed

end
